theory Spec2Isabelle
  imports Main "HOL-Library.Multiset"
begin

unbundle bit_operations_syntax

section \<open>The Python runtime used by svd2bitmask.py\<close>

text \<open>
  A Python \<open>str\<close> is a list of code points; the model keeps the code points below 256,
  one \<^typ>\<open>char\<close> each. Python's unbounded \<open>int\<close> is \<^typ>\<open>int\<close>. Every exception
  the script can raise in the functions below is a value of \<open>error\<close>; a function that
  can raise returns \<open>error + 'a\<close>, with \<open>Inl\<close> for the exception. Text written to
  standard output by \<open>print\<close> is not part of any returned value and is left out.
\<close>

datatype error = NameError | AttributeError | TypeError | ValueError

definition tab :: string where
  "tab = [CHR 0x09]"

definition nl :: string where
  "nl = [CHR 0x0A]"

subsection \<open>Character classes\<close>

definition is_digit :: "char \<Rightarrow> bool" where
  \<comment> \<open>\<open>\d\<close> of \<open>re\<close> on a \<open>str\<close>: the decimal digits; below 256 these are 0 to 9.\<close>
  "is_digit c = (let n = (of_char c :: nat) in 48 \<le> n \<and> n \<le> 57)"

definition is_word :: "char \<Rightarrow> bool" where
  \<comment> \<open>\<open>\w\<close> of \<open>re\<close> on a \<open>str\<close>: alphanumeric (\<open>str.isalnum\<close>) or the underscore.\<close>
  "is_word c = (let n = (of_char c :: nat) in
     (48 \<le> n \<and> n \<le> 57) \<or> (65 \<le> n \<and> n \<le> 90) \<or> n = 95 \<or> (97 \<le> n \<and> n \<le> 122)
     \<or> n = 170 \<or> n = 178 \<or> n = 179 \<or> n = 181 \<or> n = 185 \<or> n = 186
     \<or> n = 188 \<or> n = 189 \<or> n = 190
     \<or> (192 \<le> n \<and> n \<le> 214) \<or> (216 \<le> n \<and> n \<le> 246) \<or> 248 \<le> n)"

definition is_space :: "char \<Rightarrow> bool" where
  \<comment> \<open>\<open>str.isspace\<close>, the characters removed by \<open>str.strip()\<close>.\<close>
  "is_space c = (let n = (of_char c :: nat) in
     (9 \<le> n \<and> n \<le> 13) \<or> (28 \<le> n \<and> n \<le> 32) \<or> n = 133 \<or> n = 160)"

definition is_linebreak :: "char \<Rightarrow> bool" where
  \<comment> \<open>the line boundaries of \<open>str.splitlines()\<close>, carriage return apart.\<close>
  "is_linebreak c = (let n = (of_char c :: nat) in
     (10 \<le> n \<and> n \<le> 12) \<or> (28 \<le> n \<and> n \<le> 30) \<or> n = 133)"

subsection \<open>\<open>str.strip\<close>, \<open>str.splitlines\<close>\<close>

definition strip :: "string \<Rightarrow> string" where
  "strip s = rev (dropWhile is_space (rev (dropWhile is_space s)))"

fun splitlines_from :: "string \<Rightarrow> string \<Rightarrow> string list" where
  \<comment> \<open>the first argument is the current line, reversed\<close>
  "splitlines_from acc [] = (if acc = [] then [] else [rev acc])"
| "splitlines_from acc (c # cs) =
     (if c = CHR 0x0D then
        (case cs of
           d # ds \<Rightarrow> if d = CHR 0x0A then rev acc # splitlines_from [] ds
                     else rev acc # splitlines_from [] cs
         | [] \<Rightarrow> rev acc # splitlines_from [] cs)
      else if is_linebreak c then rev acc # splitlines_from [] cs
      else splitlines_from (c # acc) cs)"

definition splitlines :: "string \<Rightarrow> string list" where
  "splitlines s = splitlines_from [] s"

subsection \<open>\<open>int(text, base)\<close>\<close>

definition digit_val :: "char \<Rightarrow> nat option" where
  "digit_val c = (let n = (of_char c :: nat) in
     if 48 \<le> n \<and> n \<le> 57 then Some (n - 48)
     else if 97 \<le> n \<and> n \<le> 122 then Some (n - 87)
     else if 65 \<le> n \<and> n \<le> 90 then Some (n - 55)
     else None)"

fun int_digits :: "nat \<Rightarrow> nat \<Rightarrow> string \<Rightarrow> nat option" where
  \<comment> \<open>digits of the base, single underscores allowed between two digits only\<close>
  "int_digits b acc [] = None"
| "int_digits b acc (c # cs) =
     (case digit_val c of
        None \<Rightarrow> None
      | Some d \<Rightarrow>
          if b \<le> d then None
          else (case cs of
                  [] \<Rightarrow> Some (acc * b + d)
                | u # us \<Rightarrow> if u = CHR ''_'' then int_digits b (acc * b + d) us
                            else int_digits b (acc * b + d) cs))"

definition has_hex_prefix :: "string \<Rightarrow> bool" where
  "has_hex_prefix s = (take 2 s = ''0x'' \<or> take 2 s = ''0X'')"

definition py_int :: "nat \<Rightarrow> string \<Rightarrow> error + int" where
  \<comment> \<open>\<open>int(s, b)\<close> for \<open>b\<close> 10 or 16: surrounding whitespace, a sign, for base 16 an
      optional \<open>0x\<close> prefix (one underscore may follow it), then the digits. The
      interpreter's limit on the number of decimal digits (4300 unless configured)
      is not modelled.\<close>
  "py_int b s =
     (let t = strip s;
          neg = (take 1 t = ''-'');
          u = (if take 1 t = ''+'' \<or> take 1 t = ''-'' then drop 1 t else t);
          v = (if b = 16 \<and> has_hex_prefix u
               then (if take 1 (drop 2 u) = ''_'' then drop 3 u else drop 2 u)
               else u)
      in case int_digits b 0 v of
           None \<Rightarrow> Inl ValueError
         | Some n \<Rightarrow> Inr (if neg then - int n else int n))"

subsection \<open>Formatting integers: \<open>str(n)\<close> and the format \<open>X\<close>\<close>

fun digits10 :: "nat \<Rightarrow> string" where
  "digits10 n =
     (if n < 10 then [char_of (48 + n)]
      else digits10 (n div 10) @ [char_of (48 + n mod 10)])"

declare digits10.simps [simp del]

definition hex_char :: "nat \<Rightarrow> char" where
  "hex_char d = (if d < 10 then char_of (48 + d) else char_of (55 + d))"

fun digits16 :: "nat \<Rightarrow> string" where
  "digits16 n =
     (if n < 16 then [hex_char n]
      else digits16 (n div 16) @ [hex_char (n mod 16)])"

declare digits16.simps [simp del]

definition str_int :: "int \<Rightarrow> string" where
  "str_int i = (if i < 0 then ''-'' @ digits10 (nat (- i)) else digits10 (nat i))"

definition hex_int :: "int \<Rightarrow> string" where
  "hex_int i = (if i < 0 then ''-'' @ digits16 (nat (- i)) else digits16 (nat i))"

section \<open>Data model: Field, Register, Peripheral\<close>

record field =
  fld_name :: string
  fld_description :: string
  fld_offset :: int
  fld_width :: int
  fld_readonly :: bool

record register =
  reg_size :: int
  reg_offset :: int
  reg_name :: string
  reg_description :: string
  reg_type :: string
  reg_fields :: "field list"
  reg_reserved :: bool
  reg_reset :: int

record peripheral =
  per_name :: string
  per_realname :: string
  per_description :: string
  per_registers :: "register list"
  per_path :: string

definition Field :: "string \<Rightarrow> string \<Rightarrow> int \<Rightarrow> int \<Rightarrow> bool \<Rightarrow> field" where
  "Field name description offset width readonly =
     \<lparr>fld_name = name, fld_description = description, fld_offset = offset,
      fld_width = width, fld_readonly = readonly\<rparr>"

definition Register ::
  "int \<Rightarrow> int \<Rightarrow> string \<Rightarrow> string \<Rightarrow> string \<Rightarrow> field list \<Rightarrow> bool \<Rightarrow> int \<Rightarrow> register" where
  "Register sz offset name description type flds reserved reset =
     \<lparr>reg_size = sz, reg_offset = offset, reg_name = name,
      reg_description = description, reg_type = type, reg_fields = flds,
      reg_reserved = reserved, reg_reset = reset\<rparr>"

definition reserved_register :: "int \<Rightarrow> int \<Rightarrow> register" where
  \<comment> \<open>\<open>Register(size, offset, reserved=True)\<close>, the other arguments at their defaults\<close>
  "reserved_register sz offset = Register sz offset '''' '''' ''UNKNOWN'' [] True 0"

subsection \<open>The canonical name: \<open>re.match(r'(\w+)\d+$', realname)\<close>\<close>

definition digits_then_end :: "string \<Rightarrow> bool" where
  \<comment> \<open>\<open>\d+$\<close>: at least one digit, then the end of the string, or one newline that
      ends the string\<close>
  "digits_then_end s =
     (takeWhile is_digit s \<noteq> [] \<and>
      (dropWhile is_digit s = [] \<or> dropWhile is_digit s = nl))"

fun word_group :: "nat \<Rightarrow> string \<Rightarrow> string option" where
  \<comment> \<open>the greedy group \<open>(\w+)\<close> tried at \<open>n\<close> characters, then backtracking to fewer\<close>
  "word_group 0 s = None"
| "word_group (Suc n) s =
     (if digits_then_end (drop (Suc n) s) then Some (take (Suc n) s)
      else word_group n s)"

definition match_name :: "string \<Rightarrow> string option" where
  "match_name realname = word_group (length (takeWhile is_word realname)) realname"

definition canonical_name :: "string \<Rightarrow> string" where
  "canonical_name realname =
     (case match_name realname of Some g \<Rightarrow> g | None \<Rightarrow> realname)"

definition Peripheral :: "string \<Rightarrow> string \<Rightarrow> register list \<Rightarrow> peripheral" where
  "Peripheral realname description registers =
     \<lparr>per_name = canonical_name realname, per_realname = realname,
      per_description = description, per_registers = registers, per_path = ''''\<rparr>"

subsection \<open>Equality (\<open>__eq__\<close>); \<open>!=\<close> is its negation\<close>

definition field_eq :: "field \<Rightarrow> field \<Rightarrow> bool" where
  "field_eq a b =
     (if fld_name a \<noteq> fld_name b then False
      else if fld_description a \<noteq> fld_description b then False
      else if fld_offset a \<noteq> fld_offset b then False
      else if fld_width a \<noteq> fld_width b then False
      else if fld_readonly a \<noteq> fld_readonly b then False
      else True)"

definition register_eq :: "register \<Rightarrow> register \<Rightarrow> bool" where
  "register_eq a b =
     (if reg_size a \<noteq> reg_size b then False
      else if reg_offset a \<noteq> reg_offset b then False
      else if reg_name a \<noteq> reg_name b then False
      else if reg_description a \<noteq> reg_description b then False
      else if reg_type a \<noteq> reg_type b then False
      else if length (reg_fields a) \<noteq> length (reg_fields b) then False
      else if list_ex (\<lambda>i. \<not> field_eq (reg_fields a ! i) (reg_fields b ! i))
                [0 ..< length (reg_fields a)] then False
      else if reg_reserved a \<noteq> reg_reserved b then False
      else if reg_reset a \<noteq> reg_reset b then False
      else True)"

definition peripheral_eq :: "peripheral \<Rightarrow> peripheral \<Rightarrow> bool" where
  "peripheral_eq a b =
     (if per_name a \<noteq> per_name b then False
      else if per_description a \<noteq> per_description b then False
      else if length (per_registers a) \<noteq> length (per_registers b) then False
      else if list_ex (\<lambda>i. \<not> register_eq (per_registers a ! i) (per_registers b ! i))
                [0 ..< length (per_registers a)] then False
      else True)"

section \<open>The document tree (\<open>xml.etree.ElementTree.Element\<close>)\<close>

datatype xml =
  Element (xml_tag: string) (xml_attrib: "(string \<times> string) list")
          (xml_text: "string option") (xml_children: "xml list")

definition find_xml :: "string \<Rightarrow> xml \<Rightarrow> xml option" where
  \<comment> \<open>\<open>element.find(name)\<close>: the first child with that tag, or None\<close>
  "find_xml name e = List.find (\<lambda>c. xml_tag c = name) (xml_children e)"

definition strip_text :: "string \<Rightarrow> string" where
  "strip_text text =
     (let lines = splitlines text
      in if length lines > 1
         then strip (concat (map (\<lambda>line. strip line @ '' '') lines))
         else strip text)"

definition get_xml_text :: "string \<Rightarrow> xml \<Rightarrow> string \<Rightarrow> bool \<Rightarrow> string" where
  "get_xml_text name e dflt fullStrip =
     (case find_xml name e of
        None \<Rightarrow> dflt
      | Some text_xml \<Rightarrow>
          (case xml_text text_xml of
             None \<Rightarrow> dflt
           | Some t \<Rightarrow> if fullStrip then strip_text t else strip t))"

section \<open>Loading and normalizing registers: \<open>load_registers\<close>\<close>

text \<open>
  \<open>list.sort()\<close> orders by \<open>__lt__\<close>, which compares the offsets, and is stable: it is
  \<^term>\<open>sort_key\<close> on the offset, the stable insertion sort of the library.
\<close>

subsection \<open>One field element (lines 398 to 441)\<close>

datatype pyval = PyStr string | PyInt int

definition to_int :: "pyval \<Rightarrow> error + int" where
  \<comment> \<open>\<open>int(x)\<close> on a \<open>str\<close> or an \<open>int\<close>\<close>
  "to_int v = (case v of PyStr s \<Rightarrow> py_int 10 s | PyInt i \<Rightarrow> Inr i)"

definition match_bitRange :: "string \<Rightarrow> (string \<times> string) option" where
  \<comment> \<open>\<open>re.match(r'\[(\d+):(\d+)\]', s)\<close>: the two groups of a match at the start of
      \<open>s\<close>, or None. A run of digits is followed by a character that is no digit,
      so only the longest run can match.\<close>
  "match_bitRange s =
     (case s of
        [] \<Rightarrow> None
      | c # r1 \<Rightarrow>
          if c \<noteq> CHR ''['' \<or> takeWhile is_digit r1 = [] then None
          else (case dropWhile is_digit r1 of
                  [] \<Rightarrow> None
                | c2 # r2 \<Rightarrow>
                    if c2 \<noteq> CHR '':'' \<or> takeWhile is_digit r2 = [] then None
                    else (case dropWhile is_digit r2 of
                            [] \<Rightarrow> None
                          | c3 # r3 \<Rightarrow>
                              if c3 = CHR '']''
                              then Some (takeWhile is_digit r1, takeWhile is_digit r2)
                              else None)))"

definition field_size :: "xml \<Rightarrow> error + (pyval \<times> pyval)" where
  \<comment> \<open>lines 401 to 426: \<open>field_offset\<close> and \<open>field_width\<close>. Without a \<open>bitRange\<close>
      child the message of line 414 is formatted first, and its f-string reads the
      names \<open>name\<close> and \<open>field_name\<close>, which are bound nowhere: NameError, before
      \<open>return []\<close>. Without a match \<open>m\<close> is None and \<open>m.groups()\<close> raises
      AttributeError; with a match \<open>m.groups()\<close> has two entries, so the branch of
      line 420 is not taken.\<close>
  "field_size fx =
     (case (find_xml ''bitOffset'' fx, find_xml ''bitWidth'' fx) of
        (Some bitOffset_xml, Some bitWidth_xml) \<Rightarrow>
          (case xml_text bitOffset_xml of
             None \<Rightarrow> Inl AttributeError
           | Some t1 \<Rightarrow>
               (case xml_text bitWidth_xml of
                  None \<Rightarrow> Inl AttributeError
                | Some t2 \<Rightarrow> Inr (PyStr (strip t1), PyStr (strip t2))))
      | _ \<Rightarrow>
          (case find_xml ''bitRange'' fx of
             None \<Rightarrow> Inl NameError
           | Some bitRange_xml \<Rightarrow>
               (case xml_text bitRange_xml of
                  None \<Rightarrow> Inl AttributeError
                | Some t \<Rightarrow>
                    (case match_bitRange (strip t) of
                       None \<Rightarrow> Inl AttributeError
                     | Some (m1, m2) \<Rightarrow>
                         (case py_int 10 m1 of
                            Inl e \<Rightarrow> Inl e
                          | Inr i1 \<Rightarrow>
                              (case py_int 10 m2 of
                                 Inl e \<Rightarrow> Inl e
                               | Inr i2 \<Rightarrow> Inr (PyInt i1, PyInt (i2 - i1 + 1))))))))"

definition field_access :: "xml \<Rightarrow> error + bool" where
  \<comment> \<open>lines 428 to 433: \<open>readonly\<close>\<close>
  "field_access fx =
     (case find_xml ''access'' fx of
        None \<Rightarrow> Inr False
      | Some access_xml \<Rightarrow>
          (case xml_text access_xml of
             None \<Rightarrow> Inl AttributeError
           | Some t \<Rightarrow> Inr (strip t = ''read-only'')))"

definition load_field :: "xml \<Rightarrow> error + field" where
  "load_field fx =
     (let field_name_xml = get_xml_text ''name'' fx '''' True;
          field_description_xml = get_xml_text ''description'' fx '''' True
      in case field_size fx of
           Inl e \<Rightarrow> Inl e
         | Inr (field_offset, field_width) \<Rightarrow>
             (case field_access fx of
                Inl e \<Rightarrow> Inl e
              | Inr readonly \<Rightarrow>
                  (case to_int field_offset of
                     Inl e \<Rightarrow> Inl e
                   | Inr off \<Rightarrow>
                       (case to_int field_width of
                          Inl e \<Rightarrow> Inl e
                        | Inr wid \<Rightarrow>
                            Inr (Field field_name_xml field_description_xml off wid readonly)))))"

fun load_fields :: "xml list \<Rightarrow> error + field list" where
  \<comment> \<open>the loop of line 397 over the children of \<open>fields\<close>\<close>
  "load_fields [] = Inr []"
| "load_fields (fx # rest) =
     (case load_field fx of
        Inl e \<Rightarrow> Inl e
      | Inr f \<Rightarrow>
          (case load_fields rest of
             Inl e \<Rightarrow> Inl e
           | Inr fs \<Rightarrow> Inr (f # fs)))"

subsection \<open>Reserved fields (lines 444 to 485)\<close>

fun field_gaps :: "field list \<Rightarrow> field list" where
  \<comment> \<open>the loop of line 459: it reads the entries below the length it started with
      and appends behind them, so it sees the adjacent pairs of the list it was
      given\<close>
  "field_gaps (a # b # rest) =
     (let end = fld_offset a + fld_width a;
          diff = fld_offset b - end
      in (if diff > 0 then [Field '''' ''Reserved'' end diff True] else [])
         @ field_gaps (b # rest))"
| "field_gaps [a] = []"
| "field_gaps [] = []"

definition normalize_fields :: "field list \<Rightarrow> field list" where
  "normalize_fields flds =
     (if length flds > 0 then
        (let s = sort_key fld_offset flds;
             s1 = (if length s > 0 \<and> fld_offset (hd s) \<noteq> 0
                   then Field '''' ''Reserved'' 0 (fld_offset (hd s) - 1) True # s
                   else s);
             s2 = sort_key fld_offset (s1 @ field_gaps s1);
             end = fld_offset (last s2) + fld_width (last s2)
         in if end \<noteq> 32 then s2 @ [Field '''' ''Reserved'' end (32 - end) True] else s2)
      else flds)"

subsection \<open>One register element (lines 365 to 488)\<close>

definition register_type :: "int \<Rightarrow> string" where
  "register_type sz_xml =
     (if sz_xml = 64 then ''uint64_t''
      else if sz_xml = 32 then ''uint32_t''
      else if sz_xml = 16 then ''uint16_t''
      else if sz_xml = 8 then ''uint8_t''
      else ''UNKNOWN'')"

definition load_register :: "xml \<Rightarrow> error + register" where
  "load_register rx =
     (let name_xml = get_xml_text ''name'' rx '''' True;
          description_xml = get_xml_text ''description'' rx '''' True
      in case py_int 16 (get_xml_text ''size'' rx '''' True) of
           Inl e \<Rightarrow> Inl e
         | Inr sz_xml \<Rightarrow>
             (case py_int 16 (get_xml_text ''addressOffset'' rx '''' True) of
                Inl e \<Rightarrow> Inl e
              | Inr offset_xml \<Rightarrow>
                  (case (let r = get_xml_text ''resetValue'' rx '''' True
                         in if r = '''' then Inr 0 else py_int 16 r) of
                     Inl e \<Rightarrow> Inl e
                   | Inr reset_xml \<Rightarrow>
                       (case (case find_xml ''fields'' rx of
                                None \<Rightarrow> Inr []
                              | Some fields_xml \<Rightarrow> load_fields (xml_children fields_xml)) of
                          Inl e \<Rightarrow> Inl e
                        | Inr flds \<Rightarrow>
                            Inr (Register sz_xml offset_xml name_xml description_xml
                                   (register_type sz_xml) (normalize_fields flds)
                                   False reset_xml)))))"

fun load_register_list :: "xml list \<Rightarrow> error + register list" where
  \<comment> \<open>the loop of line 364\<close>
  "load_register_list [] = Inr []"
| "load_register_list (rx # rest) =
     (case load_register rx of
        Inl e \<Rightarrow> Inl e
      | Inr r \<Rightarrow>
          (case load_register_list rest of
             Inl e \<Rightarrow> Inl e
           | Inr rs \<Rightarrow> Inr (r # rs)))"

definition load_registers :: "string \<Rightarrow> xml option \<Rightarrow> nat \<Rightarrow> error + register list" where
  \<comment> \<open>\<open>registers\<close> is what \<open>peripheral.find('registers')\<close> returned; iterating over
      None raises TypeError\<close>
  "load_registers peripheral_name registers verbose =
     (case registers of
        None \<Rightarrow> Inl TypeError
      | Some rs \<Rightarrow> load_register_list (xml_children rs))"

section \<open>Loading and normalizing a peripheral: \<open>load_peripheral\<close>\<close>

fun register_gaps :: "register list \<Rightarrow> register list" where
  \<comment> \<open>the loop of line 341, on the adjacent pairs as for the fields\<close>
  "register_gaps (a # b # rest) =
     (let end = reg_offset a + reg_size a;
          diff = reg_offset b - end
      in (if diff > 0 then [reserved_register diff end] else [])
         @ register_gaps (b # rest))"
| "register_gaps [a] = []"
| "register_gaps [] = []"

definition normalize_registers :: "register list \<Rightarrow> register list" where
  \<comment> \<open>lines 330 to 356\<close>
  "normalize_registers registers =
     (let s = sort_key reg_offset registers;
          s1 = (if length s > 0 \<and> reg_offset (hd s) \<noteq> 0
                then reserved_register 0 (reg_offset (hd s) - 1) # s
                else s)
      in sort_key reg_offset (s1 @ register_gaps s1))"

definition load_peripheral :: "xml \<Rightarrow> nat \<Rightarrow> error + peripheral option" where
  "load_peripheral px verbose =
     (let name_xml = get_xml_text ''name'' px '''' True;
          description_xml = get_xml_text ''description'' px '''' True;
          registers_xml = find_xml ''registers'' px
      in case load_registers name_xml registers_xml verbose of
           Inl e \<Rightarrow> Inl e
         | Inr registers \<Rightarrow>
             if registers = [] then Inr None
             else Inr (Some (Peripheral name_xml description_xml
                               (normalize_registers registers))))"

section \<open>The loop of \<open>main\<close> over the peripherals (lines 590 to 644)\<close>

definition is_derived :: "xml \<Rightarrow> bool" where
  "is_derived px =
     (length (xml_attrib px) > 0 \<and> ''derivedFrom'' \<in> set (map fst (xml_attrib px)))"

fun main_loop ::
  "('s \<Rightarrow> peripheral \<Rightarrow> error + 's) \<Rightarrow> nat \<Rightarrow> nat \<times> 's \<Rightarrow> xml list \<Rightarrow> error + (nat \<times> 's)" where
  \<comment> \<open>The state is the counter \<open>derived\<close> and whatever lines 604 to 644 keep (the
      accepted peripherals, the duplicates, the counts, the files written); these
      lines are the parameter \<open>accept\<close>. No statement of the loop is inside a
      \<open>try\<close>, so an exception ends the loop, and with it the run.\<close>
  "main_loop accept verbose (derived, st) [] = Inr (derived, st)"
| "main_loop accept verbose (derived, st) (px # rest) =
     (if is_derived px then main_loop accept verbose (derived + 1, st) rest
      else (case load_peripheral px verbose of
              Inl e \<Rightarrow> Inl e
            | Inr None \<Rightarrow> main_loop accept verbose (derived, st) rest
            | Inr (Some p) \<Rightarrow>
                (case accept st p of
                   Inl e \<Rightarrow> Inl e
                 | Inr st' \<Rightarrow> main_loop accept verbose (derived, st') rest)))"

section \<open>Rendering: \<open>print_registers\<close> and \<open>print_peripheral\<close>\<close>

subsection \<open>The bit-field lines of a union (lines 194 to 221)\<close>

definition field_position :: "field \<Rightarrow> string" where
  "field_position f =
     (let start = fld_offset f;
          end = fld_offset f + fld_width f - 1
      in if start = end then ''Bit '' @ str_int start
         else ''Bits '' @ str_int start @ ''-'' @ str_int end)"

definition field_line :: "string \<Rightarrow> field \<Rightarrow> string" where
  "field_line type f =
     tab @ tab @ (if fld_readonly f then ''const '' else '''') @ type
     @ (if length (fld_name f) > 0 then '' '' @ fld_name f else '''')
     @ '': '' @ str_int (fld_width f) @ '';'' @ tab @ ''// '' @ field_position f
     @ '': '' @ fld_description f @ nl"

subsection \<open>Masks (lines 231 to 234 and 248 to 250)\<close>

fun mask_bits :: "int \<Rightarrow> nat list \<Rightarrow> int \<Rightarrow> error + int" where
  \<comment> \<open>\<open>for i in ...: mask |= (1 << (i + offset))\<close>; a negative shift count raises
      ValueError\<close>
  "mask_bits offset [] msk = Inr msk"
| "mask_bits offset (i # rest) msk =
     (if int i + offset < 0 then Inl ValueError
      else mask_bits offset rest (msk OR push_bit (nat (int i + offset)) 1))"

definition field_mask :: "field \<Rightarrow> int \<Rightarrow> error + int" where
  \<comment> \<open>the inner loop over \<open>range(field.width)\<close>, from the mask so far\<close>
  "field_mask f msk = mask_bits (fld_offset f) [0 ..< nat (fld_width f)] msk"

fun register_mask :: "field list \<Rightarrow> int \<Rightarrow> error + int" where
  "register_mask [] msk = Inr msk"
| "register_mask (f # rest) msk =
     (case field_mask f msk of
        Inl e \<Rightarrow> Inl e
      | Inr m \<Rightarrow> register_mask rest m)"

subsection \<open>The macros of the named fields (lines 238 to 254)\<close>

definition macro_name :: "string \<Rightarrow> string \<Rightarrow> field \<Rightarrow> string" where
  \<comment> \<open>\<open>{peripheral.name}_{register.name}_{field.name}\<close>\<close>
  "macro_name pn rn f = pn @ ''_'' @ rn @ ''_'' @ fld_name f"

definition field_macros ::
  "string \<Rightarrow> string \<Rightarrow> string \<Rightarrow> field list \<Rightarrow> field \<Rightarrow> error + string" where
  "field_macros pn rn type filtered f =
     (let n = macro_name pn rn f;
          pos = ''#define '' @ n @ ''_Pos'' @ tab @ ''(('' @ type @ '')''
                @ str_int (fld_offset f) @ '')'' @ nl
      in if fld_width f = 1 then
           Inr (pos @ ''#define '' @ n @ tab @ ''(('' @ type @ '')(1 << '' @ n @ ''_Pos))'' @ nl
                @ (if \<not> field_eq f (last filtered) then nl else ''''))
         else
           (case field_mask f 0 of
              Inl e \<Rightarrow> Inl e
            | Inr msk \<Rightarrow>
                Inr (pos
                     @ ''#define '' @ n @ ''_Msk'' @ tab @ ''(('' @ type @ '')(0x'' @ hex_int msk
                     @ '' << '' @ n @ ''_Pos))'' @ nl
                     @ ''#define '' @ n @ ''_Val(v)'' @ tab @ ''(('' @ type @ '')(((v) & '' @ n
                     @ ''_Msk) >> '' @ n @ ''_Pos))'' @ nl
                     @ ''#define '' @ n @ ''(v)'' @ tab @ ''(('' @ type @ '')(((v) << '' @ n
                     @ ''_Pos) & '' @ n @ ''_Msk)'' @ nl)))"

fun fields_macros ::
  "string \<Rightarrow> string \<Rightarrow> string \<Rightarrow> field list \<Rightarrow> field list \<Rightarrow> error + string" where
  \<comment> \<open>the loop of line 238 over \<open>filtered\<close>; the fourth argument is the whole of
      \<open>filtered\<close>, for \<open>filtered[-1]\<close>\<close>
  "fields_macros pn rn type filtered [] = Inr ''''"
| "fields_macros pn rn type filtered (f # rest) =
     (case field_macros pn rn type filtered f of
        Inl e \<Rightarrow> Inl e
      | Inr t \<Rightarrow>
          (case fields_macros pn rn type filtered rest of
             Inl e \<Rightarrow> Inl e
           | Inr u \<Rightarrow> Inr (t @ u)))"

subsection \<open>One union with its macros (lines 188 to 254)\<close>

definition register_union :: "peripheral \<Rightarrow> register \<Rightarrow> error + string" where
  "register_union p r =
     (let type = reg_type r;
          n = per_name p @ ''_'' @ reg_name r;
          head =
            ''// ---------- '' @ per_description p @ '' '' @ reg_description r
            @ '' ----------'' @ nl
            @ ''typedef union'' @ nl @ ''{'' @ nl @ tab @ ''struct'' @ nl @ tab @ ''{'' @ nl
            @ concat (map (field_line type) (reg_fields r))
            @ tab @ ''} bit;'' @ nl @ tab @ type @ '' reg;'' @ nl @ ''} '' @ n @ ''_t;'' @ nl @ nl
            @ ''#define '' @ n @ ''_RESETVALUE'' @ tab @ ''(('' @ type @ '')0x''
            @ hex_int (reg_reset r) @ '')'' @ nl;
          filtered = filter (\<lambda>f. length (fld_name f) > 0) (reg_fields r)
      in case register_mask filtered 0 of
           Inl e \<Rightarrow> Inl e
         | Inr msk \<Rightarrow>
             (case fields_macros (per_name p) (reg_name r) type filtered filtered of
                Inl e \<Rightarrow> Inl e
              | Inr macros \<Rightarrow>
                  Inr (head @ ''#define '' @ n @ ''_Mask'' @ tab @ ''(('' @ type @ '')0x''
                       @ hex_int msk @ '')'' @ nl @ nl @ macros)))"

fun register_unions :: "peripheral \<Rightarrow> register list \<Rightarrow> error + string list" where
  \<comment> \<open>the loop of line 183\<close>
  "register_unions p [] = Inr []"
| "register_unions p (r # rest) =
     (if length (reg_fields r) < 1 then register_unions p rest
      else (case register_union p r of
              Inl e \<Rightarrow> Inl e
            | Inr u \<Rightarrow>
                (case register_unions p rest of
                   Inl e \<Rightarrow> Inl e
                 | Inr us \<Rightarrow> Inr (u # us))))"

definition print_registers :: "peripheral \<Rightarrow> nat \<Rightarrow> error + string list" where
  "print_registers p verbose = register_unions p (per_registers p)"

subsection \<open>The two structs (lines 281 to 316)\<close>

definition reserved_line :: "register \<Rightarrow> string" where
  "reserved_line r =
     tab @ tab @ ''const volatile uint32_t: '' @ str_int (reg_size r) @ '';'' @ tab
     @ ''// Reserved'' @ nl"

definition plain_line :: "register \<Rightarrow> string" where
  "plain_line r =
     tab @ tab @ ''volatile '' @ reg_type r @ '' '' @ reg_name r @ '';'' @ tab @ ''// ''
     @ reg_description r @ nl"

definition bitmask_struct_line :: "peripheral \<Rightarrow> register \<Rightarrow> string" where
  "bitmask_struct_line p r =
     (if reg_reserved r then reserved_line r
      else if length (reg_fields r) > 0 then
        tab @ tab @ ''volatile '' @ per_name p @ ''_'' @ reg_name r @ ''_t '' @ reg_name r
        @ '';'' @ tab @ ''// '' @ reg_description r @ nl
      else plain_line r)"

definition plain_struct_line :: "register \<Rightarrow> string" where
  "plain_struct_line r = (if reg_reserved r then reserved_line r else plain_line r)"

definition print_peripheral :: "peripheral \<Rightarrow> nat \<Rightarrow> string" where
  "print_peripheral p verbose =
     ''#ifdef BITMASK'' @ nl
     @ tab @ ''typedef struct'' @ nl @ tab @ ''{'' @ nl
     @ concat (map (bitmask_struct_line p) (per_registers p))
     @ tab @ ''} '' @ per_name p @ ''_t;'' @ nl
     @ ''#else'' @ nl
     @ tab @ ''typedef struct'' @ nl @ tab @ ''{'' @ nl
     @ concat (map plain_struct_line (per_registers p))
     @ tab @ ''} '' @ per_name p @ ''_t;'' @ nl
     @ ''#endif''"

subsection \<open>The value of an emitted constant\<close>

text \<open>
  The macro \<open>N_Pos\<close> expands to \<open>((T)k)\<close>, the field's offset cast to the register's
  type \<open>T\<close>. The macro \<open>N_Msk\<close> of a field that is not one bit wide expands to
  \<open>((T)(0x<mask> << N_Pos))\<close>, where \<open><mask>\<close> is the literal computed by the loop
  of line 249.
  The expression is evaluated as C does where \<open>int\<close> has 32 bits and the wider
  integer type has 64: a hexadecimal literal has the first of the types \<open>int\<close>,
  \<open>unsigned int\<close>, signed and unsigned 64-bit that holds its value; the shift is
  done in the type of its left operand, wraps when that type is unsigned, and is
  undefined when the count is not below the width of the type or when the type is
  signed and the result does not fit; the cast to \<open>uintN_t\<close> reduces modulo \<open>2^N\<close>.
  A value is None where C defines none, and where the type is \<open>UNKNOWN\<close>.
\<close>

definition type_bits :: "string \<Rightarrow> nat option" where
  "type_bits type =
     (if type = ''uint64_t'' then Some 64
      else if type = ''uint32_t'' then Some 32
      else if type = ''uint16_t'' then Some 16
      else if type = ''uint8_t'' then Some 8
      else None)"

definition literal_type :: "int \<Rightarrow> (bool \<times> nat) option" where
  \<comment> \<open>signedness and width of the type of a hexadecimal literal with this value\<close>
  "literal_type v =
     (if v < 2 ^ 31 then Some (True, 32)
      else if v < 2 ^ 32 then Some (False, 32)
      else if v < 2 ^ 63 then Some (True, 64)
      else if v < 2 ^ 64 then Some (False, 64)
      else None)"

definition c_shift_left :: "bool \<times> nat \<Rightarrow> int \<Rightarrow> int \<Rightarrow> int option" where
  \<comment> \<open>\<open>v << c\<close> for a non-negative \<open>v\<close> of the given type\<close>
  "c_shift_left t v c =
     (case t of (sg, wd) \<Rightarrow>
        if c < 0 \<or> int wd \<le> c then None
        else if sg then
          (if v * 2 ^ nat c < 2 ^ (wd - 1) then Some (v * 2 ^ nat c) else None)
        else Some ((v * 2 ^ nat c) mod 2 ^ wd))"

definition emitted_Msk :: "string \<Rightarrow> field \<Rightarrow> error + int option" where
  "emitted_Msk type f =
     (case field_mask f 0 of
        Inl e \<Rightarrow> Inl e
      | Inr msk \<Rightarrow>
          Inr (case type_bits type of
                 None \<Rightarrow> None
               | Some n \<Rightarrow>
                   (case literal_type msk of
                      None \<Rightarrow> None
                    | Some t \<Rightarrow>
                        (case c_shift_left t msk (fld_offset f mod 2 ^ n) of
                           None \<Rightarrow> None
                         | Some v \<Rightarrow> Some (v mod 2 ^ n)))))"

section \<open>Example documents\<close>

definition leaf :: "string \<Rightarrow> string \<Rightarrow> xml" where
  \<comment> \<open>an element with text and no children, such as \<open><name>CTRL</name>\<close>\<close>
  "leaf t s = Element t [] (Some s) []"

definition field_MODE_range :: xml where
  \<comment> \<open>a field given by \<open><bitRange>[7:4]</bitRange>\<close>\<close>
  "field_MODE_range = Element ''field'' [] None [leaf ''name'' ''MODE'', leaf ''bitRange'' ''[7:4]'']"

definition field_MODE_lsb_msb :: xml where
  "field_MODE_lsb_msb =
     Element ''field'' [] None [leaf ''name'' ''MODE'', leaf ''bitRange'' ''[4:7]'']"

definition field_EN :: xml where
  "field_EN = Element ''field'' [] None
     [leaf ''name'' ''EN'', leaf ''description'' ''Enable'',
      leaf ''bitOffset'' ''0'', leaf ''bitWidth'' ''1'']"

definition field_unsized :: xml where
  \<comment> \<open>a field with neither \<open>bitOffset\<close>, \<open>bitWidth\<close> nor \<open>bitRange\<close>\<close>
  "field_unsized = Element ''field'' [] None [leaf ''name'' ''MODE'']"

definition field_bad_range :: xml where
  \<comment> \<open>a field whose \<open>bitRange\<close> is not of the form \<open>[n:m]\<close>\<close>
  "field_bad_range =
     Element ''field'' [] None [leaf ''name'' ''MODE'', leaf ''bitRange'' ''7-4'']"

definition register_with :: "string \<Rightarrow> string \<Rightarrow> xml list \<Rightarrow> xml" where
  \<comment> \<open>a 32-bit register at the given offset with the given field elements\<close>
  "register_with n off fxs = Element ''register'' [] None
     [leaf ''name'' n, leaf ''description'' ''Control'', leaf ''size'' ''0x20'',
      leaf ''addressOffset'' off, Element ''fields'' [] None fxs]"

definition peripheral_with :: "string \<Rightarrow> xml list \<Rightarrow> xml" where
  "peripheral_with n rxs = Element ''peripheral'' [] None
     [leaf ''name'' n, leaf ''description'' ''Port'', Element ''registers'' [] None rxs]"

definition peripheral_good :: xml where
  "peripheral_good = peripheral_with ''GPIO'' [register_with ''CTRL'' ''0x0'' [field_EN]]"

definition peripheral_at_8 :: xml where
  \<comment> \<open>one register, at address offset 8, without fields\<close>
  "peripheral_at_8 = peripheral_with ''GPIO'' [register_with ''CTRL'' ''0x8'' []]"

definition peripheral_unsized :: xml where
  "peripheral_unsized = peripheral_with ''TIMER0'' [register_with ''CTRL'' ''0x0'' [field_unsized]]"

definition peripheral_bad_range :: xml where
  "peripheral_bad_range =
     peripheral_with ''TIMER0'' [register_with ''CTRL'' ''0x0'' [field_bad_range]]"

definition peripheral_no_registers :: xml where
  "peripheral_no_registers =
     Element ''peripheral'' [] None [leaf ''name'' ''WDT'', leaf ''description'' ''Watchdog'']"

definition accept_names :: "string list \<Rightarrow> peripheral \<Rightarrow> error + string list" where
  \<comment> \<open>a loop body that records the names of the peripherals it is given\<close>
  "accept_names st p = Inr (st @ [per_name p])"

definition field_MODE :: field where
  \<comment> \<open>a named field of width 2 at offset 4\<close>
  "field_MODE = Field ''MODE'' ''Mode'' 4 2 False"

definition field_B :: field where
  \<comment> \<open>a field of width 4 at offset 4\<close>
  "field_B = Field ''B'' ''b'' 4 4 False"

definition field_A0 :: field where
  \<comment> \<open>a field of width 0 at offset 4, as \<open><bitOffset>4</bitOffset><bitWidth>0</bitWidth>\<close>
      gives\<close>
  "field_A0 = Field ''A'' ''a'' 4 0 False"

definition digits_value :: "string \<Rightarrow> nat" where
  \<comment> \<open>the number that a run of decimal digits denotes\<close>
  "digits_value ds = foldl (\<lambda>a c. a * 10 + (of_char c - 48)) 0 ds"

section \<open>Bit coverage of a field list\<close>

definition covers_bit :: "field \<Rightarrow> int \<Rightarrow> bool" where
  \<comment> \<open>bit \<open>b\<close> lies in the range of the field, from its offset, as many bits as its
      width\<close>
  "covers_bit f b = (fld_offset f \<le> b \<and> b < fld_offset f + fld_width f)"

fun contiguous :: "field list \<Rightarrow> bool" where
  \<comment> \<open>each field ends where the next one starts\<close>
  "contiguous (a # b # rest) =
     (fld_offset a + fld_width a = fld_offset b \<and> contiguous (b # rest))"
| "contiguous [a] = True"
| "contiguous [] = True"

fun non_overlapping :: "field list \<Rightarrow> bool" where
  \<comment> \<open>no two entries of the list have a bit in common\<close>
  "non_overlapping [] = True"
| "non_overlapping (f # rest) =
     (list_all (\<lambda>g. fld_offset f + fld_width f \<le> fld_offset g
                    \<or> fld_offset g + fld_width g \<le> fld_offset f) rest
      \<and> non_overlapping rest)"

definition valid_field :: "field \<Rightarrow> bool" where
  \<comment> \<open>the field of the data model: a bit index from 0, at least one bit wide, inside
      the 32 bits\<close>
  "valid_field f = (0 \<le> fld_offset f \<and> 1 \<le> fld_width f \<and> fld_offset f + fld_width f \<le> 32)"

fun with_gaps :: "field list \<Rightarrow> field list" where
  \<comment> \<open>the list with the reserved field of each adjacent pair put between the two\<close>
  "with_gaps (a # b # rest) = a # field_gaps [a, b] @ with_gaps (b # rest)"
| "with_gaps [a] = [a]"
| "with_gaps [] = []"

section \<open>Structural equality\<close>

lemma field_eq_iff: "field_eq a b = (a = b)"
  by (cases a, cases b) (auto simp: field_eq_def)

lemma nth_loop_iff:
  "length xs = length ys \<Longrightarrow>
   list_ex (\<lambda>i. xs ! i \<noteq> ys ! i) [0 ..< length xs] = (xs \<noteq> ys)"
  by (auto simp: list_ex_iff intro: nth_equalityI)

lemma register_eq_attrs:
  "register_eq a b =
     (reg_size a = reg_size b \<and> reg_offset a = reg_offset b \<and> reg_name a = reg_name b \<and>
      reg_description a = reg_description b \<and> reg_type a = reg_type b \<and>
      reg_fields a = reg_fields b \<and> reg_reserved a = reg_reserved b \<and>
      reg_reset a = reg_reset b)"
  using nth_loop_iff[of "reg_fields a" "reg_fields b"]
  by (simp add: register_eq_def field_eq_iff)

lemma register_eq_iff: "register_eq a b = (a = b)"
  unfolding register_eq_attrs by (cases a, cases b) simp

lemma peripheral_eq_iff:
  "peripheral_eq a b =
     (per_name a = per_name b \<and> per_description a = per_description b \<and>
      per_registers a = per_registers b)"
  using nth_loop_iff[of "per_registers a" "per_registers b"]
  by (simp add: peripheral_eq_def register_eq_iff)

text \<open>
  Claim C8. \<open>Peripheral.__eq__\<close> is reflexive and symmetric; it holds exactly when the
  canonical names, the descriptions and the register lists agree, where two registers
  agree exactly when all their attributes do, the field lists included, and two fields
  agree exactly when all their attributes do. It reads neither \<open>realname\<close> nor \<open>path\<close>:
  two peripherals that differ in these two attributes only are equal.
\<close>

theorem peripheral_eq_structural:
  "peripheral_eq p p
   \<and> peripheral_eq p q = peripheral_eq q p
   \<and> peripheral_eq p q =
       (per_name p = per_name q \<and> per_description p = per_description q \<and>
        length (per_registers p) = length (per_registers q) \<and>
        list_all2 register_eq (per_registers p) (per_registers q))
   \<and> register_eq r s =
       (reg_size r = reg_size s \<and> reg_offset r = reg_offset s \<and> reg_name r = reg_name s \<and>
        reg_description r = reg_description s \<and> reg_type r = reg_type s \<and>
        list_all2 field_eq (reg_fields r) (reg_fields s) \<and>
        reg_reserved r = reg_reserved s \<and> reg_reset r = reg_reset s)
   \<and> field_eq f g =
       (fld_name f = fld_name g \<and> fld_description f = fld_description g \<and>
        fld_offset f = fld_offset g \<and> fld_width f = fld_width g \<and>
        fld_readonly f = fld_readonly g)
   \<and> peripheral_eq (p\<lparr>per_realname := rn, per_path := pa\<rparr>)
                     (p\<lparr>per_realname := rn', per_path := pa'\<rparr>)"
proof -
  have fe: "field_eq = (=)"
    by (intro ext) (rule field_eq_iff)
  have re: "register_eq = (=)"
    by (intro ext) (rule register_eq_iff)
  have "field_eq f g =
       (fld_name f = fld_name g \<and> fld_description f = fld_description g \<and>
        fld_offset f = fld_offset g \<and> fld_width f = fld_width g \<and>
        fld_readonly f = fld_readonly g)"
    by (auto simp: field_eq_def)
  moreover have "register_eq r s =
       (reg_size r = reg_size s \<and> reg_offset r = reg_offset s \<and> reg_name r = reg_name s \<and>
        reg_description r = reg_description s \<and> reg_type r = reg_type s \<and>
        list_all2 field_eq (reg_fields r) (reg_fields s) \<and>
        reg_reserved r = reg_reserved s \<and> reg_reset r = reg_reset s)"
    by (simp add: register_eq_attrs fe list.rel_eq)
  moreover have "peripheral_eq p q =
       (per_name p = per_name q \<and> per_description p = per_description q \<and>
        length (per_registers p) = length (per_registers q) \<and>
        list_all2 register_eq (per_registers p) (per_registers q))"
    by (auto simp: peripheral_eq_iff re list.rel_eq)
  moreover have "peripheral_eq p q = peripheral_eq q p"
    by (auto simp: peripheral_eq_iff)
  ultimately show ?thesis
    by (simp add: peripheral_eq_iff)
qed

theorem peripheral_eq_structural_witness:
  "peripheral_eq
     ((Peripheral ''UART0'' ''Serial port'' [reserved_register 4 0])\<lparr>per_path := ''a/x_uart.h''\<rparr>)
     (Peripheral ''UART1'' ''Serial port'' [reserved_register 4 0])
   \<and> \<not> peripheral_eq
     (Peripheral ''UART0'' ''Serial port'' [reserved_register 4 0])
     (Peripheral ''UART1'' ''Serial port'' [reserved_register 8 0])"
proof -
  have n: "canonical_name ''UART0'' = canonical_name ''UART1''"
    by code_simp
  have r: "\<not> register_eq (reserved_register 4 0) (reserved_register 8 0)"
    by (simp add: register_eq_def reserved_register_def Register_def)
  have a: "peripheral_eq
     ((Peripheral ''UART0'' ''Serial port'' [reserved_register 4 0])\<lparr>per_path := ''a/x_uart.h''\<rparr>)
     (Peripheral ''UART1'' ''Serial port'' [reserved_register 4 0])"
    using n peripheral_eq_structural
        [where p = "Peripheral ''UART0'' ''Serial port'' [reserved_register 4 0]"
           and rn = "''UART0''" and pa = "''a/x_uart.h''" and rn' = "''UART1''" and pa' = "[]"]
    by (simp add: Peripheral_def)
  have b: "\<not> peripheral_eq
     (Peripheral ''UART0'' ''Serial port'' [reserved_register 4 0])
     (Peripheral ''UART1'' ''Serial port'' [reserved_register 8 0])"
    using r conjunct1 [OF conjunct2 [OF conjunct2 [OF peripheral_eq_structural
        [where p = "Peripheral ''UART0'' ''Serial port'' [reserved_register 4 0]"
           and q = "Peripheral ''UART1'' ''Serial port'' [reserved_register 8 0]"]]]]
    by (simp add: Peripheral_def)
  show ?thesis
    using a b by simp
qed

section \<open>The canonical name\<close>

lemma digit_is_word: "is_digit c \<Longrightarrow> is_word c"
  by (simp add: is_digit_def is_word_def Let_def)

lemma canonical_name_one_digit:
  assumes "w \<noteq> []" and "\<forall>c\<in>set w. is_word c" and "is_digit d"
  shows "canonical_name (w @ [d]) = w"
proof -
  obtain n where n: "length w = Suc n"
    using assms(1) by (cases w) auto
  have t: "takeWhile is_word (w @ [d]) = w @ [d]"
    using assms(2,3) by (simp add: digit_is_word)
  have d0: "drop (Suc (Suc n)) (w @ [d]) = []"
    and d1: "drop (Suc n) (w @ [d]) = [d]"
    and t1: "take (Suc n) (w @ [d]) = w"
    using n by simp_all
  have e0: "\<not> digits_then_end []"
    by (simp add: digits_then_end_def)
  have e1: "digits_then_end [d]"
    using assms(3) by (simp add: digits_then_end_def)
  have "word_group (Suc (Suc n)) (w @ [d]) = Some w"
    by (simp only: word_group.simps d0 d1 t1 e0 e1 if_True if_False)
  then show ?thesis
    by (simp add: canonical_name_def match_name_def t n)
qed

text \<open>
  Claim C6. The group \<open>(\w+)\<close> is greedy and digits are word characters, so the group
  takes all of the name but its last digit: for \<open>TIMER10\<close> the name is \<open>TIMER1\<close>, not
  \<open>TIMER\<close>, and deriving the name of \<open>TIMER1\<close> again gives \<open>TIMER\<close>. The derivation
  strips one digit, not the trailing run of digits, and is not idempotent.
\<close>

theorem canonical_name_strips_one_digit:
  "canonical_name ''TIMER10'' = ''TIMER1''
   \<and> canonical_name (canonical_name ''TIMER10'') = ''TIMER''
   \<and> canonical_name (canonical_name ''TIMER10'') \<noteq> canonical_name ''TIMER10''
   \<and> per_name (Peripheral ''TIMER10'' ''Timer'' []) = ''TIMER1''"
  unfolding Peripheral_def by code_simp

section \<open>Rendering\<close>

lemma register_union_upd:
  "register_union (p\<lparr>per_realname := rn, per_path := pa\<rparr>) r = register_union p r"
  by (simp add: register_union_def Let_def split: sum.splits)

lemma register_unions_upd:
  "register_unions (p\<lparr>per_realname := rn, per_path := pa\<rparr>) rs = register_unions p rs"
  by (induction rs) (simp_all add: register_union_upd split: sum.splits)

lemma bitmask_struct_line_upd:
  "bitmask_struct_line (p\<lparr>per_realname := rn, per_path := pa\<rparr>) = bitmask_struct_line p"
  by (rule ext) (simp add: bitmask_struct_line_def)

text \<open>
  Claim C9. The text returned by \<open>print_registers\<close> (the unions with their macros) and
  by \<open>print_peripheral\<close> (the two structs) is a function of the peripheral's canonical
  name, description and registers alone: it is the same at every verbosity and for
  every \<open>realname\<close> and \<open>path\<close>. Rendering the same peripheral a second time therefore
  returns the same text, or raises the same exception.
\<close>

theorem rendering_depends_on_model_only:
  "print_registers (p\<lparr>per_realname := rn, per_path := pa\<rparr>) v = print_registers p w
   \<and> print_peripheral (p\<lparr>per_realname := rn, per_path := pa\<rparr>) v = print_peripheral p w"
  by (simp add: print_registers_def print_peripheral_def register_unions_upd
      bitmask_struct_line_upd)

theorem rendering_depends_on_model_only_witness:
  "print_registers
     ((Peripheral ''GPIO'' ''Port'' [Register 32 0 ''CTRL'' ''Control'' ''uint32_t''
        (normalize_fields [field_MODE]) False 0])\<lparr>per_realname := ''GPIO0'', per_path := ''x.h''\<rparr>) 3
   = print_registers
     (Peripheral ''GPIO'' ''Port'' [Register 32 0 ''CTRL'' ''Control'' ''uint32_t''
        (normalize_fields [field_MODE]) False 0]) 0
   \<and> print_peripheral
     ((Peripheral ''GPIO'' ''Port'' [Register 32 0 ''CTRL'' ''Control'' ''uint32_t''
        (normalize_fields [field_MODE]) False 0])\<lparr>per_realname := ''GPIO0'', per_path := ''x.h''\<rparr>) 3
   = print_peripheral
     (Peripheral ''GPIO'' ''Port'' [Register 32 0 ''CTRL'' ''Control'' ''uint32_t''
        (normalize_fields [field_MODE]) False 0]) 0"
  using rendering_depends_on_model_only
    [where p = "Peripheral ''GPIO'' ''Port'' [Register 32 0 ''CTRL'' ''Control'' ''uint32_t''
        (normalize_fields [field_MODE]) False 0]" and rn = "''GPIO0''" and pa = "''x.h''"
       and v = 3 and w = 0]
  by simp

section \<open>Exceptions while loading\<close>

lemma main_loop_append:
  "main_loop accept v s (xs @ ys) =
     (case main_loop accept v s xs of
        Inl e \<Rightarrow> Inl e
      | Inr s' \<Rightarrow> main_loop accept v s' ys)"
  by (induction accept v s xs rule: main_loop.induct) (auto split: sum.splits option.splits)

text \<open>
  Claim C10. For a peripheral element that is not derived and has no \<open>registers\<close>
  child, \<open>load_peripheral\<close> hands None to \<open>load_registers\<close>, which raises TypeError;
  \<open>load_peripheral\<close> raises it in turn, and so does the loop of \<open>main\<close>: when the loop
  reaches the element, the run ends with TypeError, whatever follows the element and
  whatever the loop does with the peripherals it accepts.
\<close>

theorem missing_registers_ends_run:
  assumes "\<not> is_derived px" and "find_xml ''registers'' px = None"
  shows "load_registers n (find_xml ''registers'' px) v = Inl TypeError
         \<and> load_peripheral px v = Inl TypeError
         \<and> main_loop accept v (d, st) (px # rest) = Inl TypeError
         \<and> main_loop accept v s (before @ px # rest) =
             (case main_loop accept v s before of
                Inl e \<Rightarrow> Inl e
              | Inr s' \<Rightarrow> Inl TypeError)"
proof -
  have l: "load_peripheral px v = Inl TypeError"
    using assms(2) by (simp add: load_peripheral_def load_registers_def)
  have m: "main_loop accept v s' (px # rest) = Inl TypeError" for s'
    using assms(1) l by (cases s') simp
  show ?thesis
    using assms(2) l m[of "(d, st)"] m
    by (simp add: load_registers_def main_loop_append del: main_loop.simps split: sum.splits)
qed

theorem missing_registers_ends_run_witness:
  "load_peripheral peripheral_no_registers 0 = Inl TypeError
   \<and> main_loop accept_names 0 (0, []) [peripheral_good, peripheral_no_registers, peripheral_good]
       = Inl TypeError"
proof -
  have d: "\<not> is_derived peripheral_no_registers"
    by code_simp
  have f: "find_xml ''registers'' peripheral_no_registers = None"
    by code_simp
  have g: "main_loop accept_names 0 (0, []) [peripheral_good] = Inr (0, [''GPIO''])"
    by code_simp
  show ?thesis
    using g missing_registers_ends_run
      [OF d f, where n = "''WDT''" and v = 0 and accept = accept_names and d = 0 and st = "[]"
         and rest = "[peripheral_good]" and s = "(0, [])" and before = "[peripheral_good]"]
    by simp
qed

lemma load_field_unsized:
  "find_xml ''bitOffset'' fx = None \<or> find_xml ''bitWidth'' fx = None \<Longrightarrow>
   find_xml ''bitRange'' fx = None \<Longrightarrow> load_field fx = Inl NameError"
  by (auto simp: load_field_def field_size_def split: option.splits)

text \<open>
  Claim C7. A field element with neither \<open>bitOffset\<close>, \<open>bitWidth\<close> nor \<open>bitRange\<close>
  makes \<open>load_registers\<close> raise NameError: the message of line 414 names two
  variables that do not exist, so \<open>return []\<close> is not reached. The exception leaves
  \<open>load_peripheral\<close> and the loop of \<open>main\<close>: the peripheral is not skipped, the run
  ends, and the peripheral that follows is not processed. A \<open>bitRange\<close> that the
  pattern does not match raises AttributeError in the same way.
\<close>

theorem unparsable_field_ends_run:
  "load_field field_unsized = Inl NameError
   \<and> load_registers ''TIMER0'' (find_xml ''registers'' peripheral_unsized) 0 = Inl NameError
   \<and> load_peripheral peripheral_unsized 0 = Inl NameError
   \<and> main_loop accept_names 0 (0, []) [peripheral_unsized, peripheral_good] = Inl NameError
   \<and> main_loop accept_names 0 (0, []) [peripheral_good] = Inr (0, [''GPIO''])
   \<and> load_peripheral peripheral_bad_range 0 = Inl AttributeError"
  by code_simp

section \<open>Reserved registers and fields\<close>

text \<open>
  Claim C1. For a peripheral whose only register is at address offset 8, line 336
  builds \<open>Register(0, start_next - 1, reserved=True)\<close>, a reserved register of size 0
  at offset 7; the loop of line 341 then adds one of size 1 at offset 7. No reserved
  register of size 8 at offset 0 is made, and the first register of the normalized
  peripheral is at offset 7.
\<close>

theorem first_reserved_register_misplaced:
  "load_peripheral peripheral_at_8 0 =
     Inr (Some (Peripheral ''GPIO'' ''Port''
       [reserved_register 0 7, reserved_register 1 7,
        Register 32 8 ''CTRL'' ''Control'' ''uint32_t'' [] False 0]))
   \<and> map (\<lambda>r. (reg_offset r, reg_size r))
        (normalize_registers [Register 32 8 ''CTRL'' ''Control'' ''uint32_t'' [] False 0])
      = [(7, 0), (7, 1), (8, 32)]"
  by code_simp

text \<open>
  Claim C5. For a register whose only field is at bit offset 4, line 453 builds
  \<open>Field('', 'Reserved', 0, start_next - 1, True)\<close>, a reserved field of width 3 at
  offset 0, not of width 4; the loop of line 459 then adds a second reserved field,
  of width 1 at offset 3.
\<close>

theorem first_reserved_field_one_short:
  "normalize_fields [Field ''A'' ''d'' 4 4 False] =
     [Field '''' ''Reserved'' 0 3 True, Field '''' ''Reserved'' 3 1 True,
      Field ''A'' ''d'' 4 4 False, Field '''' ''Reserved'' 8 24 True]"
  by code_simp

section \<open>Masks\<close>

lemma mask_bits_append:
  "mask_bits k (xs @ ys) m =
     (case mask_bits k xs m of Inl e \<Rightarrow> Inl e | Inr m' \<Rightarrow> mask_bits k ys m')"
  by (induction xs arbitrary: m) simp_all

lemma mask_bits_upt:
  "0 \<le> k \<Longrightarrow> mask_bits k [0 ..< n] 0 = Inr (push_bit (nat k) (mask n))"
proof (induction n)
  case 0
  then show ?case by simp
next
  case (Suc n)
  have "nat (int n + k) = nat k + n"
    using Suc.prems by simp
  moreover have "push_bit (nat k) (2 ^ n :: int) = 2 ^ (nat k + n)"
    by (simp add: push_bit_eq_mult power_add)
  ultimately have "push_bit (nat k) (mask n) OR push_bit (nat (int n + k)) 1 =
        push_bit (nat k) (mask (Suc n) :: int)"
    by (simp add: mask_Suc_exp or.commute)
  then show ?case
    using Suc by (simp add: mask_bits_append)
qed

lemma field_mask_value:
  "0 \<le> fld_offset f \<Longrightarrow>
   field_mask f 0 = Inr (push_bit (nat (fld_offset f)) (mask (nat (fld_width f))))"
  by (simp add: field_mask_def mask_bits_upt)

lemma type_bits_ge: "type_bits type = Some n \<Longrightarrow> 8 \<le> n"
  by (auto simp: type_bits_def split: if_splits)

lemma push_bit_mask_less: "push_bit k (mask w :: int) < 2 ^ (k + w)"
proof -
  have "(mask w :: int) < 2 ^ w"
    by (simp add: mask_eq_exp_minus_1)
  then show ?thesis
    by (simp add: push_bit_eq_mult power_add)
qed

lemma emitted_Msk_value:
  assumes "0 \<le> fld_offset f" and "0 \<le> fld_width f"
    and "2 * fld_offset f + fld_width f \<le> 31" and "type_bits type = Some n"
  shows "emitted_Msk type f =
           Inr (Some (push_bit (2 * nat (fld_offset f)) (mask (nat (fld_width f))) mod 2 ^ n))"
proof -
  define k where "k = nat (fld_offset f)"
  define w where "w = nat (fld_width f)"
  have kw: "2 * k + w \<le> 31" and ko: "fld_offset f = int k"
    using assms(1-3) by (simp_all add: k_def w_def)
  have m: "field_mask f 0 = Inr (push_bit k (mask w))"
    using field_mask_value[OF assms(1)] by (simp add: k_def w_def)
  have "push_bit k (mask w :: int) < 2 ^ (k + w)"
    by (rule push_bit_mask_less)
  also have "\<dots> \<le> (2 :: int) ^ 31"
    using kw by (intro power_increasing) simp_all
  finally have lt: "literal_type (push_bit k (mask w)) = Some (True, 32)"
    by (simp add: literal_type_def)
  have "int k < 2 ^ 8"
    using kw by simp
  also have "\<dots> \<le> (2 :: int) ^ n"
    using type_bits_ge[OF assms(4)] by (intro power_increasing) simp_all
  finally have c: "fld_offset f mod 2 ^ n = int k"
    by (simp add: ko)
  have p2: "(2 :: int) ^ (2 * k) = 2 ^ k * 2 ^ k"
    by (simp add: mult_2 power_add)
  have e: "push_bit k (mask w :: int) * 2 ^ k = push_bit (2 * k) (mask w)"
    by (simp add: push_bit_eq_mult p2)
  have "push_bit (2 * k) (mask w :: int) < 2 ^ (2 * k + w)"
    by (rule push_bit_mask_less)
  also have "\<dots> \<le> (2 :: int) ^ 31"
    using kw by (intro power_increasing) simp_all
  finally have r: "push_bit k (mask w :: int) * 2 ^ k < 2 ^ 31"
    by (simp only: e)
  have s: "c_shift_left (True, 32) (push_bit k (mask w)) (int k) = Some (push_bit (2 * k) (mask w))"
    using r kw by (simp add: c_shift_left_def e)
  show ?thesis
    using m lt c s assms(4) by (simp add: emitted_Msk_def flip: k_def w_def)
qed

lemma emitted_Msk_wraps:
  "field_mask (Field ''HI'' [] 16 16 False) 0 = Inr 0xFFFF0000
   \<and> emitted_Msk ''uint32_t'' (Field ''HI'' [] 16 16 False) = Inr (Some 0)"
  by code_simp

text \<open>
  Claim C4. For the named field \<open>MODE\<close> of width 2 at offset 4 the loop of line 249
  computes the mask 0x30, which is \<open>((1 << 2) - 1) << 4\<close> already, and line 252 emits
  \<open>0x30 << GPIO_CTRL_MODE_Pos\<close>, where \<open>GPIO_CTRL_MODE_Pos\<close> is 4: the emitted
  constant evaluates to 0x300, the mask shifted a second time, not to 0x30.
\<close>

theorem Msk_shifted_twice:
  "field_macros ''GPIO'' ''CTRL'' ''uint32_t'' [field_MODE] field_MODE =
     Inr (''#define GPIO_CTRL_MODE_Pos'' @ tab @ ''((uint32_t)4)'' @ nl
          @ ''#define GPIO_CTRL_MODE_Msk'' @ tab
          @ ''((uint32_t)(0x30 << GPIO_CTRL_MODE_Pos))'' @ nl
          @ ''#define GPIO_CTRL_MODE_Val(v)'' @ tab
          @ ''((uint32_t)(((v) & GPIO_CTRL_MODE_Msk) >> GPIO_CTRL_MODE_Pos))'' @ nl
          @ ''#define GPIO_CTRL_MODE(v)'' @ tab
          @ ''((uint32_t)(((v) << GPIO_CTRL_MODE_Pos) & GPIO_CTRL_MODE_Msk)'' @ nl)
   \<and> field_mask field_MODE 0 = Inr 0x30
   \<and> emitted_Msk ''uint32_t'' field_MODE = Inr (Some 0x300)
   \<and> push_bit 4 ((push_bit 2 1) - 1) = (0x30 :: int)"
  by code_simp

section \<open>Bit ranges\<close>

lemma digit_val_digit: "is_digit c \<Longrightarrow> digit_val c = Some (of_char c - 48)"
  by (simp add: is_digit_def digit_val_def Let_def)

lemma digit_lt_10: "is_digit c \<Longrightarrow> (of_char c :: nat) - 48 < 10"
  by (auto simp: is_digit_def Let_def)

lemma digit_not_underscore: "is_digit c \<Longrightarrow> c \<noteq> CHR ''_''"
  by (auto simp: is_digit_def Let_def)

lemma digit_not_space: "is_digit c \<Longrightarrow> \<not> is_space c"
  by (auto simp: is_digit_def is_space_def Let_def)

lemma int_digits_run:
  "ds \<noteq> [] \<Longrightarrow> \<forall>c\<in>set ds. is_digit c \<Longrightarrow>
   int_digits 10 acc ds = Some (foldl (\<lambda>a c. a * 10 + (of_char c - 48)) acc ds)"
proof (induction ds arbitrary: acc)
  case Nil
  then show ?case by simp
next
  case (Cons c cs)
  have c: "digit_val c = Some (of_char c - 48)" "(of_char c :: nat) - 48 < 10"
    using Cons.prems(2) by (simp_all add: digit_val_digit digit_lt_10)
  show ?case
  proof (cases cs)
    case Nil
    then show ?thesis using c by simp
  next
    case (Cons u us)
    then have "u \<noteq> CHR ''_''"
      using Cons.prems(2) by (simp add: digit_not_underscore)
    then show ?thesis
      using c Cons Cons.IH[of "acc * 10 + (of_char c - 48)"] Cons.prems(2)
      by simp
  qed
qed

lemma strip_digits: "\<forall>c\<in>set ds. is_digit c \<Longrightarrow> strip ds = ds"
proof -
  assume a: "\<forall>c\<in>set ds. is_digit c"
  have "dropWhile is_space xs = xs" if "\<forall>c\<in>set xs. is_digit c" for xs
    using that by (cases xs) (simp_all add: digit_not_space)
  from this[of ds] this[of "rev ds"] a show ?thesis
    by (simp add: strip_def)
qed

lemma py_int_digits:
  assumes "ds \<noteq> []" "\<forall>c\<in>set ds. is_digit c"
  shows "py_int 10 ds = Inr (int (digits_value ds))"
proof -
  obtain c cs where ds: "ds = c # cs"
    using assms(1) by (cases ds) auto
  have "is_digit c"
    using assms(2) ds by simp
  then have "c \<noteq> CHR ''-''" "c \<noteq> CHR ''+''"
    by (auto simp: is_digit_def Let_def)
  then have "take 1 ds \<noteq> ''-''" "take 1 ds \<noteq> ''+''"
    using ds by simp_all
  then show ?thesis
    using int_digits_run[OF assms, of 0] strip_digits[OF assms(2)]
    by (simp add: py_int_def digits_value_def)
qed

lemma match_bitRange_digits:
  assumes "m1 \<noteq> []" "\<forall>c\<in>set m1. is_digit c" "m2 \<noteq> []" "\<forall>c\<in>set m2. is_digit c"
  shows "match_bitRange (''['' @ m1 @ '':'' @ m2 @ '']'' @ rest) = Some (m1, m2)"
proof -
  have c: "\<not> is_digit CHR '':''" "\<not> is_digit CHR '']''"
    by (simp_all add: is_digit_def)
  have t1: "takeWhile is_digit (m1 @ CHR '':'' # ys) = m1" for ys
    using assms(2) c(1) by (simp add: takeWhile_tail)
  have d1: "dropWhile is_digit (m1 @ CHR '':'' # ys) = CHR '':'' # ys" for ys
    using assms(2) c(1) by (simp add: dropWhile_append3)
  have t2: "takeWhile is_digit (m2 @ CHR '']'' # ys) = m2" for ys
    using assms(4) c(2) by (simp add: takeWhile_tail)
  have d2: "dropWhile is_digit (m2 @ CHR '']'' # ys) = CHR '']'' # ys" for ys
    using assms(4) c(2) by (simp add: dropWhile_append3)
  show ?thesis
    using assms(1,3) by (simp add: match_bitRange_def t1 d1 t2 d2)
qed

lemma digits10_digits: "digits10 n \<noteq> [] \<and> (\<forall>c\<in>set (digits10 n). is_digit c)"
proof (induction n rule: digits10.induct)
  case (1 n)
  have "is_digit (char_of (48 + k))" if "k < 10" for k :: nat
    using that by (simp add: is_digit_def Let_def)
  then show ?case
    using 1 by (subst (1 2) digits10.simps) auto
qed

lemma digits_value_digits10: "digits_value (digits10 n) = n"
proof (induction n rule: digits10.induct)
  case (1 n)
  have k: "(of_char (char_of (48 + k) :: char) :: nat) - 48 = k" if "k < 10" for k :: nat
    using that by simp
  show ?case
  proof (cases "n < 10")
    case True
    then show ?thesis
      using k[of n] by (subst digits10.simps) (simp add: digits_value_def)
  next
    case False
    then show ?thesis
      using 1 k[of "n mod 10"]
      by (subst digits10.simps) (simp add: digits_value_def)
  qed
qed

text \<open>
  Claim C3, as the code has it. Line 417 documents the format as \<open>[<lsb>:<msb>]\<close>,
  and lines 425 and 426 read it so: for a field without the \<open>bitOffset\<close> and
  \<open>bitWidth\<close> pair whose \<open>bitRange\<close> text, stripped, starts with \<open>[a:b]\<close> for two
  runs of decimal digits \<open>a\<close> and \<open>b\<close>, the field has offset \<open>a\<close> and width
  \<open>b - a + 1\<close>. So \<open>[4:7]\<close> gives offset 4 and width 4, and \<open>[7:4]\<close> gives offset 7
  and width \<open>-2\<close>.
\<close>

theorem bitRange_read_as_lsb_msb:
  assumes "find_xml ''bitOffset'' fx = None \<or> find_xml ''bitWidth'' fx = None"
    and "find_xml ''bitRange'' fx = Some bitRange_xml"
    and "xml_text bitRange_xml = Some t"
    and "strip t = ''['' @ m1 @ '':'' @ m2 @ '']'' @ rest"
    and "m1 \<noteq> []" and "\<forall>c\<in>set m1. is_digit c"
    and "m2 \<noteq> []" and "\<forall>c\<in>set m2. is_digit c"
  shows "load_field fx =
           (case field_access fx of
              Inl e \<Rightarrow> Inl e
            | Inr readonly \<Rightarrow>
                Inr (Field (get_xml_text ''name'' fx '''' True)
                           (get_xml_text ''description'' fx '''' True)
                           (int (digits_value m1))
                           (int (digits_value m2) - int (digits_value m1) + 1)
                           readonly))"
proof -
  have "field_size fx =
          Inr (PyInt (int (digits_value m1)),
               PyInt (int (digits_value m2) - int (digits_value m1) + 1))"
    using assms(1-4) match_bitRange_digits[OF assms(5-8), of rest]
      py_int_digits[OF assms(5,6)] py_int_digits[OF assms(7,8)]
    by (auto simp: field_size_def split: option.splits)
  then show ?thesis
    by (simp add: load_field_def to_int_def split: sum.splits)
qed

theorem bitRange_read_as_lsb_msb_witness:
  "load_field field_MODE_lsb_msb = Inr (Field ''MODE'' [] 4 4 False)"
proof -
  have a: "find_xml ''bitOffset'' field_MODE_lsb_msb = None
           \<or> find_xml ''bitWidth'' field_MODE_lsb_msb = None"
    by code_simp
  have b: "find_xml ''bitRange'' field_MODE_lsb_msb = Some (leaf ''bitRange'' ''[4:7]'')"
    by code_simp
  have c: "xml_text (leaf ''bitRange'' ''[4:7]'') = Some ''[4:7]''"
    by code_simp
  have d: "strip ''[4:7]'' = ''['' @ ''4'' @ '':'' @ ''7'' @ '']'' @ []"
    by code_simp
  have e: "''4'' \<noteq> []" "\<forall>c\<in>set ''4''. is_digit c" "''7'' \<noteq> []" "\<forall>c\<in>set ''7''. is_digit c"
    by (simp_all add: is_digit_def)
  have f: "field_access field_MODE_lsb_msb = Inr False"
    by code_simp
  have g: "get_xml_text ''name'' field_MODE_lsb_msb [] True = ''MODE''"
    "get_xml_text ''description'' field_MODE_lsb_msb [] True = []"
    by code_simp+
  have h: "digits_value ''4'' = 4" "digits_value ''7'' = 7"
    by code_simp+
  show ?thesis
    using bitRange_read_as_lsb_msb [OF a b c d e] f g h by simp
qed

text \<open>
  Claim C3, as stated, at its own example: \<open>bitRange="[7:4]"\<close> does not parse to
  offset 4 and width 4.
\<close>

theorem bitRange_7_4_counterexample:
  "load_field field_MODE_range = Inr (Field ''MODE'' [] 7 (- 2) False)
   \<and> load_field field_MODE_range \<noteq> Inr (Field ''MODE'' [] 4 4 False)"
  by code_simp

section \<open>The normalized fields cover the 32 bits\<close>

lemma insort_separated:
  assumes "sorted_wrt (\<lambda>x y. fld_offset x + fld_width x \<le> fld_offset y) ys"
    and "\<forall>y\<in>set ys. fld_offset x + fld_width x \<le> fld_offset y
                    \<or> fld_offset y + fld_width y \<le> fld_offset x"
    and "1 \<le> fld_width x" and "\<forall>y\<in>set ys. 1 \<le> fld_width y"
  shows "sorted_wrt (\<lambda>x y. fld_offset x + fld_width x \<le> fld_offset y)
           (insort_key fld_offset x ys)"
  using assms
proof (induction ys)
  case Nil
  then show ?case by simp
next
  case (Cons y ys)
  show ?case
  proof (cases "fld_offset x \<le> fld_offset y")
    case True
    have "fld_offset x + fld_width x \<le> fld_offset z" if "z \<in> set (y # ys)" for z
    proof -
      have "fld_offset y \<le> fld_offset z"
        using that Cons.prems(1,4) by fastforce
      moreover have "1 \<le> fld_width z"
        using that Cons.prems(4) by auto
      ultimately show ?thesis
        using that True Cons.prems(2) by fastforce
    qed
    then show ?thesis
      using True Cons.prems(1) by simp
  next
    case False
    have "fld_offset y + fld_width y \<le> fld_offset x"
      using False Cons.prems(2,3) by fastforce
    then show ?thesis
      using False Cons by (auto simp: set_insort_key)
  qed
qed

lemma sort_separated:
  "non_overlapping fs \<Longrightarrow> \<forall>f\<in>set fs. 1 \<le> fld_width f \<Longrightarrow>
   sorted_wrt (\<lambda>x y. fld_offset x + fld_width x \<le> fld_offset y) (sort_key fld_offset fs)"
proof (induction fs)
  case Nil
  then show ?case by simp
next
  case (Cons f fs)
  then show ?case
    by (auto intro!: insort_separated simp: list_all_iff)
qed

lemma field_gaps_step [simp]:
  "field_gaps (a # b # rest) =
     (if fld_offset a + fld_width a < fld_offset b
      then [Field [] ''Reserved'' (fld_offset a + fld_width a)
              (fld_offset b - (fld_offset a + fld_width a)) True]
      else [])
     @ field_gaps (b # rest)"
  by (simp add: Let_def)

declare field_gaps.simps(1) [simp del]

lemma field_gaps_props:
  "g \<in> set (field_gaps xs) \<Longrightarrow>
   (\<exists>x\<in>set xs. fld_offset g = fld_offset x + fld_width x)
   \<and> 0 < fld_width g \<and> fld_name g = [] \<and> fld_readonly g"
proof (induction xs rule: with_gaps.induct)
  case (1 a b rest)
  show ?case
  proof (cases "g \<in> set (field_gaps (b # rest))")
    case True
    then show ?thesis
      using 1(1) by auto
  next
    case False
    then have "g = Field [] ''Reserved'' (fld_offset a + fld_width a)
                     (fld_offset b - (fld_offset a + fld_width a)) True
               \<and> fld_offset a + fld_width a < fld_offset b"
      using 1(2) by (simp split: if_splits)
    then show ?thesis
      by (simp add: Field_def)
  qed
qed simp_all

lemma mset_with_gaps: "mset (with_gaps xs) = mset xs + mset (field_gaps xs)"
  by (induction xs rule: with_gaps.induct) simp_all

lemma set_with_gaps: "set (with_gaps xs) = set xs \<union> set (field_gaps xs)"
  using mset_with_gaps[of xs] by (metis set_mset_mset set_mset_union)

lemma separated_lb:
  assumes "sorted_wrt (\<lambda>x y. fld_offset x + fld_width x \<le> fld_offset y) (a # rest)"
    and "\<forall>x\<in>set (a # rest). 0 \<le> fld_width x"
  shows "\<forall>z\<in>set (with_gaps (a # rest)). fld_offset a \<le> fld_offset z"
proof
  fix z assume "z \<in> set (with_gaps (a # rest))"
  then consider "z \<in> set (a # rest)" | "z \<in> set (field_gaps (a # rest))"
    by (auto simp: set_with_gaps)
  then show "fld_offset a \<le> fld_offset z"
  proof cases
    case 1
    then show ?thesis using assms by fastforce
  next
    case 2
    then obtain x where "x \<in> set (a # rest)" "fld_offset z = fld_offset x + fld_width x"
      using field_gaps_props by blast
    then show ?thesis using assms by fastforce
  qed
qed

lemma with_gaps_Cons: "\<exists>t. with_gaps (b # rest) = b # t"
  by (cases rest) simp_all

lemma sorted_with_gaps:
  "sorted_wrt (\<lambda>x y. fld_offset x + fld_width x \<le> fld_offset y) xs \<Longrightarrow>
   \<forall>x\<in>set xs. 0 \<le> fld_width x \<Longrightarrow> sorted (map fld_offset (with_gaps xs))"
proof (induction xs rule: with_gaps.induct)
  case (1 a b rest)
  have ih: "sorted (map fld_offset (with_gaps (b # rest)))"
    using 1 by simp
  have lb: "\<forall>z\<in>set (with_gaps (b # rest)). fld_offset b \<le> fld_offset z"
    using 1(2,3) by (intro separated_lb) simp_all
  have ab: "fld_offset a + fld_width a \<le> fld_offset b" "0 \<le> fld_width a"
    using 1(2,3) by simp_all
  show ?case
    using ih lb ab by (fastforce simp: sorted_append Field_def)
qed simp_all

lemma contiguous_with_gaps:
  "sorted_wrt (\<lambda>x y. fld_offset x + fld_width x \<le> fld_offset y) xs \<Longrightarrow>
   contiguous (with_gaps xs)"
proof (induction xs rule: with_gaps.induct)
  case (1 a b rest)
  have ih: "contiguous (with_gaps (b # rest))"
    using 1 by simp
  obtain t where t: "with_gaps (b # rest) = b # t"
    using with_gaps_Cons by blast
  have ab: "fld_offset a + fld_width a \<le> fld_offset b"
    using 1(2) by simp
  show ?case
    using ih ab unfolding with_gaps.simps t
    by (auto simp: Field_def)
qed simp_all

lemma hd_with_gaps: "hd (with_gaps xs) = hd xs"
  by (induction xs rule: with_gaps.induct) simp_all

lemma with_gaps_Nil: "(with_gaps xs = []) = (xs = [])"
  by (induction xs rule: with_gaps.induct) simp_all

lemma last_with_gaps: "last (with_gaps xs) = last xs"
proof (induction xs rule: with_gaps.induct)
  case (1 a b rest)
  then show ?case
    using with_gaps_Nil[of "b # rest"] by simp
qed simp_all

lemma filter_with_gaps:
  "sorted_wrt (\<lambda>x y. fld_offset x + fld_width x \<le> fld_offset y) xs \<Longrightarrow>
   \<forall>x\<in>set xs. 0 \<le> fld_width x \<Longrightarrow>
   filter (\<lambda>x. k = fld_offset x) (with_gaps xs) =
   filter (\<lambda>x. k = fld_offset x) (xs @ field_gaps xs)"
proof (induction xs rule: with_gaps.induct)
  case (1 a b rest)
  define G where "G = field_gaps [a, b]"
  define F where "F = filter (\<lambda>x :: field. k = fld_offset x)"
  have F_app: "F (us @ vs) = F us @ F vs" for us vs
    by (simp add: F_def)
  have ih: "F (with_gaps (b # rest)) = F (b # rest) @ F (field_gaps (b # rest))"
    using 1 by (simp add: F_def)
  have lb: "\<forall>z\<in>set (b # rest). fld_offset b \<le> fld_offset z"
    using 1(2,3) separated_lb[of b rest] by (simp add: set_with_gaps)
  have e1: "with_gaps (a # b # rest) = [a] @ G @ with_gaps (b # rest)"
    by (simp add: G_def)
  have e2: "(a # b # rest) @ field_gaps (a # b # rest) =
            [a] @ (b # rest) @ G @ field_gaps (b # rest)"
    by (simp add: G_def)
  have comm: "F G @ F (b # rest) = F (b # rest) @ F G"
  proof (cases "F G = []")
    case True
    then show ?thesis by simp
  next
    case False
    then have "k < fld_offset b"
      by (auto simp: F_def G_def Field_def split: if_splits)
    then have "F (b # rest) = []"
      using lb by (auto simp: F_def filter_empty_conv)
    then show ?thesis by simp
  qed
  have "F (with_gaps (a # b # rest)) = F [a] @ F G @ F (with_gaps (b # rest))"
    by (simp only: e1 F_app)
  also have "\<dots> = F [a] @ (F G @ F (b # rest)) @ F (field_gaps (b # rest))"
    by (simp only: ih append_assoc)
  also have "\<dots> = F [a] @ (F (b # rest) @ F G) @ F (field_gaps (b # rest))"
    by (simp only: comm)
  also have "\<dots> = F ((a # b # rest) @ field_gaps (a # b # rest))"
    by (simp only: e2 F_app append_assoc)
  finally show ?case
    by (simp only: F_def)
qed simp_all

lemma sort_with_gaps:
  assumes "sorted_wrt (\<lambda>x y. fld_offset x + fld_width x \<le> fld_offset y) xs"
    and "\<forall>x\<in>set xs. 0 \<le> fld_width x"
  shows "sort_key fld_offset (xs @ field_gaps xs) = with_gaps xs"
proof (rule properties_for_sort_key)
  show "mset (with_gaps xs) = mset (xs @ field_gaps xs)"
    by (simp add: mset_with_gaps)
  show "filter (\<lambda>x. fld_offset k = fld_offset x) (with_gaps xs) =
        filter (\<lambda>x. fld_offset k = fld_offset x) (xs @ field_gaps xs)" for k :: field
    using filter_with_gaps[OF assms] .
  show "sorted (map fld_offset (with_gaps xs))"
    using sorted_with_gaps[OF assms] .
qed

lemma contiguous_snoc:
  "xs \<noteq> [] \<Longrightarrow> contiguous xs \<Longrightarrow>
   fld_offset (last xs) + fld_width (last xs) = fld_offset y \<Longrightarrow> contiguous (xs @ [y])"
  by (induction xs rule: contiguous.induct) simp_all

lemma contiguous_cover:
  "xs \<noteq> [] \<Longrightarrow> contiguous xs \<Longrightarrow> \<forall>x\<in>set xs. 0 \<le> fld_width x \<Longrightarrow>
   fld_offset (hd xs) \<le> fld_offset (last xs) + fld_width (last xs)
   \<and> length (filter (\<lambda>f. covers_bit f b) xs) =
       (if fld_offset (hd xs) \<le> b \<and> b < fld_offset (last xs) + fld_width (last xs)
        then 1 else 0)"
proof (induction xs rule: contiguous.induct)
  case (1 a c rest)
  have ih: "fld_offset c \<le> fld_offset (last (c # rest)) + fld_width (last (c # rest))"
    "length (filter (\<lambda>f. covers_bit f b) (c # rest)) =
       (if fld_offset c \<le> b \<and> b < fld_offset (last (c # rest)) + fld_width (last (c # rest))
        then 1 else 0)"
    using 1 by simp_all
  have ac: "fld_offset a + fld_width a = fld_offset c" "0 \<le> fld_width a"
    using 1(3,4) by simp_all
  have l: "last (a # c # rest) = last (c # rest)"
    by simp
  have f: "length (filter (\<lambda>f. covers_bit f b) (a # c # rest)) =
           (if covers_bit a b then 1 else 0) + length (filter (\<lambda>f. covers_bit f b) (c # rest))"
    by simp
  show ?case
    unfolding l f ih(2) using ih(1) ac by (auto simp: covers_bit_def)
next
  case (2 a)
  then show ?case by (simp add: covers_bit_def)
next
  case 3
  then show ?case by simp
qed

lemma sorted_hd_min:
  "xs \<noteq> [] \<Longrightarrow> sorted (map f xs) \<Longrightarrow> \<forall>y\<in>set xs. f (hd xs) \<le> f y"
  by (cases xs) auto

lemma normalize_fields_with_gaps:
  assumes "flds \<noteq> []" and "\<forall>f\<in>set flds. valid_field f" and "non_overlapping flds"
  defines "s \<equiv> sort_key fld_offset flds"
  defines "s1 \<equiv> (if fld_offset (hd s) \<noteq> 0
                   then Field [] ''Reserved'' 0 (fld_offset (hd s) - 1) True # s else s)"
  defines "e \<equiv> fld_offset (last s) + fld_width (last s)"
  shows "normalize_fields flds =
           (if e \<noteq> 32 then with_gaps s1 @ [Field [] ''Reserved'' e (32 - e) True]
            else with_gaps s1)"
    and "sorted_wrt (\<lambda>x y. fld_offset x + fld_width x \<le> fld_offset y) s1"
    and "\<forall>x\<in>set s1. 0 \<le> fld_width x"
    and "s1 \<noteq> []" and "fld_offset (hd s1) = 0" and "last s1 = last s" and "e \<le> 32"
    and "set s1 \<subseteq> set flds \<union> {f. fld_name f = [] \<and> fld_readonly f}"
    and "mset flds \<subseteq># mset s1"
proof -
  have s_ne: "s \<noteq> []"
    using assms(1) unfolding s_def by (metis length_sort list.size(3) length_0_conv)
  have s_set: "set s = set flds"
    by (simp add: s_def)
  have s_sorted: "sorted (map fld_offset s)"
    by (simp add: s_def)
  have w1: "\<forall>f\<in>set flds. 1 \<le> fld_width f"
    using assms(2) by (simp add: valid_field_def)
  have s_sep: "sorted_wrt (\<lambda>x y. fld_offset x + fld_width x \<le> fld_offset y) s"
    unfolding s_def using assms(3) w1 by (rule sort_separated)
  have hd_in: "hd s \<in> set flds" and last_in: "last s \<in> set flds"
    using s_ne s_set by (metis hd_in_set, metis last_in_set)
  have hd_ge: "0 \<le> fld_offset (hd s)"
    using hd_in assms(2) by (simp add: valid_field_def)
  have hd_min: "\<forall>y\<in>set s. fld_offset (hd s) \<le> fld_offset y"
    using sorted_hd_min[OF s_ne s_sorted] .
  show sep1: "sorted_wrt (\<lambda>x y. fld_offset x + fld_width x \<le> fld_offset y) s1"
    using s_sep hd_min by (auto simp: s1_def Field_def)
  show w0: "\<forall>x\<in>set s1. 0 \<le> fld_width x"
    using w1 hd_ge s_set by (auto simp: s1_def Field_def)
  show "s1 \<noteq> []"
    using s_ne by (simp add: s1_def)
  show "fld_offset (hd s1) = 0"
    by (simp add: s1_def Field_def)
  show l1: "last s1 = last s"
    using s_ne by (simp add: s1_def)
  show "e \<le> 32"
    using last_in assms(2) by (simp add: e_def valid_field_def)
  show "set s1 \<subseteq> set flds \<union> {f. fld_name f = [] \<and> fld_readonly f}"
    using s_set by (auto simp: s1_def Field_def)
  show "mset flds \<subseteq># mset s1"
    by (simp add: s1_def s_def)
  have "sort_key fld_offset (s1 @ field_gaps s1) = with_gaps s1"
    using sep1 w0 by (rule sort_with_gaps)
  moreover have "length s > 0"
    using s_ne by simp
  ultimately show "normalize_fields flds =
           (if e \<noteq> 32 then with_gaps s1 @ [Field [] ''Reserved'' e (32 - e) True]
            else with_gaps s1)"
    using assms(1) l1
    by (simp add: normalize_fields_def Let_def last_with_gaps flip: s_def s1_def e_def)
qed

lemma sorted_last_max:
  "sorted (map f xs) \<Longrightarrow> \<forall>y\<in>set xs. f y \<le> f (last xs)"
  by (induction xs) auto

lemma subset_add_mset: "A \<subseteq># B \<Longrightarrow> A \<subseteq># add_mset x B"
  by (metis add_mset_add_single mset_subset_eq_add_left subset_mset.order_trans)

text \<open>
  Claim C2, as the code has it. For a register with at least one field, where every
  field has an offset of at least 0, a width of at least 1 and offset + width at most
  32, and no two of them overlap, the normalized field list starts at bit 0, each field ends
  where the next one starts, and the last one ends at bit 32; it is ordered by offset
  and no width is negative. Every bit from 0 to 31 therefore lies in exactly one field
  of the list, and no other bit lies in any. Every field of the list is one of the
  input or has an empty name and \<open>readonly = True\<close>, and every input field is
  kept.
\<close>

theorem normalized_fields_cover_32_bits:
  assumes "flds \<noteq> []" and "\<forall>f\<in>set flds. valid_field f" and "non_overlapping flds"
  shows "fld_offset (hd (normalize_fields flds)) = 0
     \<and> contiguous (normalize_fields flds)
     \<and> fld_offset (last (normalize_fields flds)) + fld_width (last (normalize_fields flds)) = 32
     \<and> sorted (map fld_offset (normalize_fields flds))
     \<and> (\<forall>f\<in>set (normalize_fields flds). 0 \<le> fld_width f)
     \<and> (\<forall>b. length (filter (\<lambda>f. covers_bit f b) (normalize_fields flds)) =
              (if 0 \<le> b \<and> b < 32 then 1 else 0))
     \<and> (\<forall>f\<in>set (normalize_fields flds).
           f \<in> set flds \<or> (fld_name f = [] \<and> fld_readonly f))
     \<and> mset flds \<subseteq># mset (normalize_fields flds)"
proof -
  define s where "s = sort_key fld_offset flds"
  define s1 where "s1 = (if fld_offset (hd s) \<noteq> 0
                   then Field [] ''Reserved'' 0 (fld_offset (hd s) - 1) True # s else s)"
  define e where "e = fld_offset (last s) + fld_width (last s)"
  define w where "w = with_gaps s1"
  define out where "out = normalize_fields flds"
  note n = normalize_fields_with_gaps[OF assms, folded s_def, folded s1_def e_def,
      folded w_def out_def]
  have w_ne: "w \<noteq> []"
    using n(4) by (simp add: w_def with_gaps_Nil)
  have w_hd: "fld_offset (hd w) = 0"
    using n(5) by (simp add: w_def hd_with_gaps)
  have w_last: "fld_offset (last w) + fld_width (last w) = e"
    using n(6) by (simp add: w_def last_with_gaps e_def)
  have w_contiguous: "contiguous w"
    unfolding w_def using n(2) by (rule contiguous_with_gaps)
  have w_sorted: "sorted (map fld_offset w)"
    unfolding w_def using n(2,3) by (rule sorted_with_gaps)
  have w_width: "\<forall>x\<in>set w. 0 \<le> fld_width x"
    using n(3) field_gaps_props by (fastforce simp: w_def set_with_gaps)
  have w_set: "\<forall>x\<in>set w. x \<in> set flds \<or> (fld_name x = [] \<and> fld_readonly x)"
    using n(8) field_gaps_props by (fastforce simp: w_def set_with_gaps)
  have w_mset: "mset flds \<subseteq># mset w"
    using n(9) by (simp add: w_def mset_with_gaps subset_mset.add_increasing2)
  have w_le: "\<forall>x\<in>set w. fld_offset x \<le> e"
  proof
    fix x assume "x \<in> set w"
    then have "fld_offset x \<le> fld_offset (last w)"
      using sorted_last_max[OF w_sorted] by simp
    moreover have "0 \<le> fld_width (last w)"
      using w_width w_ne by simp
    ultimately show "fld_offset x \<le> e"
      using w_last by simp
  qed
  have out: "out = (if e \<noteq> 32 then w @ [Field [] ''Reserved'' e (32 - e) True] else w)"
    using n(1) .
  have o_ne: "out \<noteq> []"
    using w_ne by (simp add: out)
  have o_hd: "fld_offset (hd out) = 0"
    using w_ne w_hd by (simp add: out)
  have o_last: "fld_offset (last out) + fld_width (last out) = 32"
    using w_last by (simp add: out Field_def)
  have o_contiguous: "contiguous out"
    using w_ne w_contiguous w_last by (simp add: out contiguous_snoc Field_def)
  have o_sorted: "sorted (map fld_offset out)"
    using w_sorted w_le by (simp add: out sorted_append Field_def)
  have o_width: "\<forall>x\<in>set out. 0 \<le> fld_width x"
    using w_width n(7) by (simp add: out Field_def)
  have o_set: "\<forall>x\<in>set out. x \<in> set flds \<or> (fld_name x = [] \<and> fld_readonly x)"
    using w_set by (simp add: out Field_def)
  have o_mset: "mset flds \<subseteq># mset out"
    using w_mset by (simp add: out subset_add_mset)
  have o_cover: "length (filter (\<lambda>f. covers_bit f b) out) = (if 0 \<le> b \<and> b < 32 then 1 else 0)"
    for b
    using contiguous_cover[OF o_ne o_contiguous o_width, of b] o_hd o_last by simp
  show ?thesis
    using o_hd o_contiguous o_last o_sorted o_width o_cover o_set o_mset
    unfolding out_def by blast
qed

theorem normalized_fields_cover_32_bits_witness:
  "normalize_fields [Field ''MODE'' ''Mode'' 4 2 False, Field ''EN'' ''Enable'' 0 1 False] =
     [Field ''EN'' ''Enable'' 0 1 False, Field [] ''Reserved'' 1 3 True,
      Field ''MODE'' ''Mode'' 4 2 False, Field [] ''Reserved'' 6 26 True]
   \<and> contiguous (normalize_fields
        [Field ''MODE'' ''Mode'' 4 2 False, Field ''EN'' ''Enable'' 0 1 False])
   \<and> length (filter (\<lambda>f. covers_bit f 5) (normalize_fields
        [Field ''MODE'' ''Mode'' 4 2 False, Field ''EN'' ''Enable'' 0 1 False])) = 1"
proof -
  have a: "[Field ''MODE'' ''Mode'' 4 2 False, Field ''EN'' ''Enable'' 0 1 False] \<noteq> []"
    by simp
  have b: "\<forall>f\<in>set [Field ''MODE'' ''Mode'' 4 2 False, Field ''EN'' ''Enable'' 0 1 False].
             valid_field f"
    by (simp add: valid_field_def Field_def)
  have c: "non_overlapping [Field ''MODE'' ''Mode'' 4 2 False, Field ''EN'' ''Enable'' 0 1 False]"
    by (simp add: Field_def)
  have d: "normalize_fields [Field ''MODE'' ''Mode'' 4 2 False, Field ''EN'' ''Enable'' 0 1 False] =
     [Field ''EN'' ''Enable'' 0 1 False, Field [] ''Reserved'' 1 3 True,
      Field ''MODE'' ''Mode'' 4 2 False, Field [] ''Reserved'' 6 26 True]"
    by code_simp
  show ?thesis
    using d normalized_fields_cover_32_bits [OF a b c] by simp
qed

text \<open>
  Claim C2, as stated, assumes of the input fields only that no two overlap and that
  offset + width is at most 32. A field of width 0 at offset 4 and a field of width
  4 at offset 4 satisfy both, and both offsets are bit indices; the normalized list is
  then not contiguous, and bit 5 lies in the field \<open>B\<close> and in the trailing reserved
  field.
\<close>

theorem zero_width_field_counterexample:
  "non_overlapping [field_B, field_A0]
   \<and> fld_offset field_B + fld_width field_B \<le> 32
   \<and> fld_offset field_A0 + fld_width field_A0 \<le> 32
   \<and> normalize_fields [field_B, field_A0] =
       [Field [] ''Reserved'' 0 3 True, Field [] ''Reserved'' 3 1 True,
        field_B, field_A0, Field [] ''Reserved'' 4 28 True]
   \<and> \<not> contiguous (normalize_fields [field_B, field_A0])
   \<and> covers_bit field_B 5
   \<and> covers_bit (Field [] ''Reserved'' 4 28 True) 5
   \<and> field_B \<noteq> Field [] ''Reserved'' 4 28 True"
  by code_simp

end
